theory Spec2Isabelle
  imports Main "HOL-Library.Char_ord" "HOL-Library.List_Lexorder"
begin

section \<open>Strings\<close>

text \<open>
  Python strings are modelled as \<^typ>\<open>string\<close>. The helpers below are the string
  methods the sources call: \<^verbatim>\<open>str.startswith\<close>, \<^verbatim>\<open>str.strip\<close>, \<^verbatim>\<open>str.lower\<close>,
  \<^verbatim>\<open>str.join\<close> and the decimal rendering of a non-negative integer in an f-string.
  A string holds the UTF-8 encoding of the Python string.
\<close>

definition startswith :: "string \<Rightarrow> string \<Rightarrow> bool" where
  "startswith s p = (take (length p) s = p)"

text \<open>
  The white-space characters of \<^verbatim>\<open>str.strip\<close> (those for which \<^verbatim>\<open>str.isspace\<close> holds), each
  in UTF-8: U+0009 to U+000D, U+001C to U+0020, U+0085, U+00A0, U+1680, U+2000 to U+200A,
  U+2028, U+2029, U+202F, U+205F and U+3000.
\<close>

definition whitespace :: "string list" where
  "whitespace =
     [[CHR 0x09], [CHR 0x0A], [CHR 0x0B], [CHR 0x0C], [CHR 0x0D],
      [CHR 0x1C], [CHR 0x1D], [CHR 0x1E], [CHR 0x1F], [CHR 0x20],
      [CHR 0xC2, CHR 0x85], [CHR 0xC2, CHR 0xA0], [CHR 0xE1, CHR 0x9A, CHR 0x80],
      [CHR 0xE2, CHR 0x80, CHR 0x80], [CHR 0xE2, CHR 0x80, CHR 0x81], [CHR 0xE2, CHR 0x80, CHR 0x82],
      [CHR 0xE2, CHR 0x80, CHR 0x83], [CHR 0xE2, CHR 0x80, CHR 0x84], [CHR 0xE2, CHR 0x80, CHR 0x85],
      [CHR 0xE2, CHR 0x80, CHR 0x86], [CHR 0xE2, CHR 0x80, CHR 0x87], [CHR 0xE2, CHR 0x80, CHR 0x88],
      [CHR 0xE2, CHR 0x80, CHR 0x89], [CHR 0xE2, CHR 0x80, CHR 0x8A], [CHR 0xE2, CHR 0x80, CHR 0xA8],
      [CHR 0xE2, CHR 0x80, CHR 0xA9], [CHR 0xE2, CHR 0x80, CHR 0xAF], [CHR 0xE2, CHR 0x81, CHR 0x9F],
      [CHR 0xE3, CHR 0x80, CHR 0x80]]"

text \<open>Removing white-space characters from the front, as long as there is one.\<close>

function strip_prefixes :: "string list \<Rightarrow> string \<Rightarrow> string" where
  "strip_prefixes ws s =
     (case find (\<lambda>w. w \<noteq> [] \<and> startswith s w) ws of
        None \<Rightarrow> s
      | Some w \<Rightarrow> strip_prefixes ws (drop (length w) s))"
  by pat_completeness auto
termination
proof (relation "measure (\<lambda>(ws, s). length s)")
  show "wf (measure (\<lambda>(ws, s). length s))" by simp
next
  fix ws s w
  assume "find (\<lambda>w. w \<noteq> [] \<and> startswith s w) ws = Some w"
  then have "w \<noteq> []" "take (length w) s = w"
    by (auto simp: find_Some_iff startswith_def)
  then have "s \<noteq> []" by auto
  with \<open>w \<noteq> []\<close> show "((ws, drop (length w) s), (ws, s)) \<in> measure (\<lambda>(ws, s). length s)"
    by simp
qed

declare strip_prefixes.simps [simp del]

definition lstrip :: "string \<Rightarrow> string" where
  "lstrip s = strip_prefixes whitespace s"

definition rstrip :: "string \<Rightarrow> string" where
  "rstrip s = rev (strip_prefixes (map rev whitespace) (rev s))"

definition strip :: "string \<Rightarrow> string" where
  "strip s = rstrip (lstrip s)"




fun str_nat :: "nat \<Rightarrow> string" where
  "str_nat n = (if n < 10 then [''0123456789'' ! n]
                else str_nat (n div 10) @ [''0123456789'' ! (n mod 10)])"

declare str_nat.simps [simp del]

section \<open>os.path (posixpath)\<close>

definition path_join :: "string \<Rightarrow> string \<Rightarrow> string" where
  "path_join a b =
     (if startswith b ''/'' then b
      else if a = [] \<or> last a = CHR ''/'' then a @ b
      else a @ ''/'' @ b)"

definition basename :: "string \<Rightarrow> string" where
  "basename p = rev (takeWhile (\<lambda>c. c \<noteq> CHR ''/'') (rev p))"

text \<open>\<^verbatim>\<open>str.rfind\<close> of a single character: the highest index, or -1.\<close>

fun rfind :: "char \<Rightarrow> string \<Rightarrow> int" where
  "rfind c [] = - 1"
| "rfind c (x # xs) =
     (let r = rfind c xs in if 0 \<le> r then r + 1 else if x = c then 0 else - 1)"

text \<open>
  The inner loop of \<^verbatim>\<open>genericpath._splitext\<close>, which skips the leading dots of the
  file name: the result says whether the loop returns the split.
\<close>

function skip_leading_dots :: "string \<Rightarrow> nat \<Rightarrow> nat \<Rightarrow> bool" where
  "skip_leading_dots p filenameIndex dotIndex =
     (if filenameIndex < dotIndex then
        (if take 1 (drop filenameIndex p) \<noteq> ''.'' then True
         else skip_leading_dots p (Suc filenameIndex) dotIndex)
      else False)"
  by pat_completeness auto
termination
  by (relation "measure (\<lambda>(p, i, d). d - i)") auto

declare skip_leading_dots.simps [simp del]

definition splitext :: "string \<Rightarrow> string \<times> string" where
  "splitext p =
     (let sepIndex = rfind CHR ''/'' p; dotIndex = rfind CHR ''.'' p in
      if dotIndex > sepIndex \<and> skip_leading_dots p (nat (sepIndex + 1)) (nat dotIndex)
      then (take (nat dotIndex) p, drop (nat dotIndex) p)
      else (p, []))"

section \<open>The file tree and os.walk\<close>

datatype node = File | Dir "(string \<times> node) list"

fun is_dir :: "node \<Rightarrow> bool" where
  "is_dir (Dir es) = True"
| "is_dir File = False"

text \<open>
  \<^verbatim>\<open>os.walk(top)\<close>, top-down: one triple (dirpath, dirnames, filenames) per directory,
  the sub-directories visited under \<^verbatim>\<open>os.path.join(dirpath, name)\<close>. A path that is
  not a directory yields nothing.
\<close>

fun walk :: "string \<Rightarrow> node \<Rightarrow> (string \<times> string list \<times> string list) list" where
  "walk dirpath File = []"
| "walk dirpath (Dir es) =
     (dirpath, map fst (filter (\<lambda>e. is_dir (snd e)) es),
               map fst (filter (\<lambda>e. \<not> is_dir (snd e)) es))
     # concat (map (\<lambda>e. if is_dir (snd e) then walk (path_join dirpath (fst e)) (snd e) else []) es)"

section \<open>api_handler.py\<close>

definition set_model :: "(string \<Rightarrow> bool) \<Rightarrow> string option \<Rightarrow> string option" where
  "set_model model_init_succeeds model_name =
     (case model_name of
        None \<Rightarrow> None
      | Some n \<Rightarrow> if n = [] then None else if model_init_succeeds n then Some n else None)"

text \<open>
  \<^verbatim>\<open>GeminiAPIHandler.generate_content\<close>. The hosted call is the parameter \<open>sdk\<close>: given
  the model name, the system instruction and the user content it yields the generated
  text (\<open>Inr\<close>) or raises, with the text of the exception (\<open>Inl\<close>).
\<close>

definition generate_content ::
  "string option \<Rightarrow> (string \<Rightarrow> string \<Rightarrow> string \<Rightarrow> string + string) \<Rightarrow> string \<Rightarrow> string \<Rightarrow> string" where
  "generate_content model sdk system_prompt user_prompt =
     (case model of
        None \<Rightarrow> ''ERROR: Model is not set or failed to initialize.''
      | Some m \<Rightarrow>
          (case sdk m system_prompt user_prompt of
             Inr text \<Rightarrow> text
           | Inl e \<Rightarrow> ''ERROR: An exception occurred during generation: '' @ e))"

section \<open>file_processor.py: the run loop\<close>

text \<open>What \<^verbatim>\<open>run\<close> does to the outside, in order.\<close>

datatype event =
    Progress nat nat string
  | ApiRequest string string
  | Saved string string
  | DelaySleep nat
  | PauseSleep
  | Finished string "string list"

text \<open>
  The surroundings of one call of \<^verbatim>\<open>run\<close>. Iteration \<open>i\<close> of the loop reads, sends and
  writes at most once, so the answers of the file system and of the hosted model are
  indexed by \<open>i\<close>. The two flags are set by another thread; \<open>running_at i k\<close> and
  \<open>paused_at i k\<close> are the values read in iteration \<open>i\<close> after \<open>k\<close> sleeps of the pause
  loop (\<open>running_at n 0\<close>, with \<open>n\<close> the number of files, is the read after the loop).
  \<open>write_text\<close> stands for \<^verbatim>\<open>os.makedirs\<close> of the parent followed by opening and writing
  the output file: \<open>None\<close> when all of it succeeded, the text of the exception otherwise.
\<close>

record env =
  running_at :: "nat \<Rightarrow> nat \<Rightarrow> bool"
  paused_at :: "nat \<Rightarrow> nat \<Rightarrow> bool"
  fs_lookup :: "string \<Rightarrow> node option"
  oserror_text :: "string \<Rightarrow> string"
  read_text :: "nat \<Rightarrow> string \<Rightarrow> string + string"
  model_init_succeeds :: "string \<Rightarrow> bool"
  sdk_generate :: "nat \<Rightarrow> string \<Rightarrow> string \<Rightarrow> string \<Rightarrow> string + string"
  relpath :: "string \<Rightarrow> string \<Rightarrow> string"
  write_text :: "nat \<Rightarrow> string \<Rightarrow> string \<Rightarrow> string option"

text \<open>The settings dictionary: \<open>None\<close> is a missing key (or the value \<^verbatim>\<open>None\<close>).\<close>

record settings =
  input_path :: "string option"
  output_path :: "string option"
  prompt_text :: "string option"
  selected_model_name :: "string option"
  output_extension :: "string option"
  processing_delay :: "nat option"
  thinking_mode :: "bool option"
  process_subfolders :: "bool option"

definition truthy :: "string option \<Rightarrow> bool" where
  "truthy v = (case v of None \<Rightarrow> False | Some s \<Rightarrow> s \<noteq> [])"

definition thinking_instruction :: string where
  "thinking_instruction =
     ''Before you begin, first think step-by-step to thoroughly understand the user's request below. '' @
     ''Formulate a detailed, internal plan to process the text according to all the provided rules. '' @
     ''After you have a clear plan, execute it on the text. '' @
     ''CRITICAL INSTRUCTION: Your final output must contain ONLY the fully processed text itself. '' @
     ''Do NOT include your thoughts, your plan, or any other conversational phrases or markdown formatting in your response.''"

text \<open>The values \<^verbatim>\<open>run\<close> fixes before the loop.\<close>

record run_consts =
  l_input_path :: string
  l_output_path :: string
  l_final_system_prompt :: string
  l_model :: "string option"
  l_processing_delay :: nat
  l_total_files :: nat

text \<open>The variables the loop updates.\<close>

record loop_vars =
  error_log :: "string list"
  success_count :: nat
  cur_output_extension :: string
  trace :: "event list"

definition api_error_msg :: "string \<Rightarrow> string \<Rightarrow> string" where
  "api_error_msg original_file_name processed_content =
     ''File: '' @ original_file_name @ '' | '' @ processed_content"

definition critical_error_msg :: "string \<Rightarrow> string \<Rightarrow> string" where
  "critical_error_msg original_file_name e =
     ''File: '' @ original_file_name @ '' | A file system or other critical error occurred: '' @ e"

definition dotted :: "string \<Rightarrow> string" where
  "dotted ext =
     (if ext \<noteq> [] \<and> \<not> startswith ext ''.'' then ''.'' @ ext else ext)"

definition final_relative_path :: "string \<Rightarrow> string \<Rightarrow> string" where
  "final_relative_path ext relative_path =
     (if ext \<noteq> [] then fst (splitext relative_path) @ dotted ext else relative_path)"

text \<open>
  Lines 147 to 157 of \<^verbatim>\<open>run\<close>: the path of the output file, from the current value
  \<open>ext\<close> of the local \<^verbatim>\<open>output_extension\<close>.
\<close>

definition output_file_path :: "env \<Rightarrow> run_consts \<Rightarrow> string \<Rightarrow> string \<Rightarrow> string" where
  "output_file_path e c ext file_path =
     path_join (l_output_path c) (final_relative_path ext (relpath e file_path (l_input_path c)))"

text \<open>
  The body of the \<^verbatim>\<open>for\<close> loop from \<^verbatim>\<open>original_file_name = ...\<close> on (after the two
  flag checks), for the file at index \<open>i\<close>. Both \<^verbatim>\<open>continue\<close> statements leave the body
  before the sleep at its end.
\<close>

definition loop_body :: "env \<Rightarrow> run_consts \<Rightarrow> nat \<Rightarrow> string \<Rightarrow> loop_vars \<Rightarrow> loop_vars" where
  "loop_body e c i file_path v =
     (let original_file_name = basename file_path;
          v1 = v\<lparr>trace := trace v @ [Progress (i + 1) (l_total_files c) original_file_name]\<rparr>
      in case read_text e i file_path of
           Inl ex \<Rightarrow>
             v1\<lparr>error_log := error_log v1 @ [critical_error_msg original_file_name ex]\<rparr>
         | Inr file_content \<Rightarrow>
             (let processed_content =
                    generate_content (l_model c) (sdk_generate e i) (l_final_system_prompt c) file_content;
                  v2 = (if l_model c = None then v1
                        else v1\<lparr>trace := trace v1 @ [ApiRequest (l_final_system_prompt c) file_content]\<rparr>)
              in if startswith processed_content ''ERROR:'' then
                   v2\<lparr>error_log := error_log v2 @ [api_error_msg original_file_name processed_content]\<rparr>
                 else
                   (let out = output_file_path e c (cur_output_extension v2) file_path;
                        v3 = v2\<lparr>cur_output_extension := dotted (cur_output_extension v2)\<rparr>
                    in case write_text e i out processed_content of
                         Some ex \<Rightarrow>
                           v3\<lparr>error_log := error_log v3 @ [critical_error_msg original_file_name ex]\<rparr>
                       | None \<Rightarrow>
                           (let v4 = v3\<lparr>trace := trace v3 @ [Saved out processed_content],
                                         success_count := success_count v3 + 1\<rparr>
                            in if int i < int (l_total_files c) - 1
                               then v4\<lparr>trace := trace v4 @ [DelaySleep (l_processing_delay c)]\<rparr>
                               else v4))))"

text \<open>
  The pause loop \<^verbatim>\<open>while self._is_paused: time.sleep(0.5); if not self._is_running: ...\<close>
  of iteration \<open>i\<close>, entered after \<open>k\<close> sleeps. It yields the trace and whether the run
  goes on (\<open>True\<close>) or was stopped (\<open>False\<close>); it need not return.
\<close>

partial_function (option) pause_wait :: "env \<Rightarrow> nat \<Rightarrow> nat \<Rightarrow> event list \<Rightarrow> (bool \<times> event list) option" where
  "pause_wait e i k tr =
     (if paused_at e i k then
        (if \<not> running_at e i (Suc k) then Some (False, tr @ [PauseSleep])
         else pause_wait e i (Suc k) (tr @ [PauseSleep]))
      else Some (True, tr))"

declare pause_wait.simps [code]

definition stopped_msg :: string where
  "stopped_msg = ''Processing stopped by user.''"

definition summary_message :: "nat \<Rightarrow> nat \<Rightarrow> string list \<Rightarrow> string" where
  "summary_message success_count_v total_files error_log_v =
     (if error_log_v = [] then
        ''Successfully processed '' @ str_nat success_count_v @ '' of '' @ str_nat total_files @ '' files.''
      else
        ''Processing finished with issues. '' @ [CHR 0x0A] @ ''Processed: '' @ str_nat success_count_v
          @ '' | Failed: '' @ str_nat (length error_log_v))"

text \<open>
  The \<^verbatim>\<open>for\<close> loop over the remaining files, from index \<open>i\<close>, and the code after it.
\<close>

fun run_loop :: "env \<Rightarrow> run_consts \<Rightarrow> nat \<Rightarrow> string list \<Rightarrow> loop_vars \<Rightarrow> event list option" where
  "run_loop e c i [] v =
     Some (if running_at e i 0
           then trace v @ [Finished (summary_message (success_count v) (l_total_files c) (error_log v)) (error_log v)]
           else trace v)"
| "run_loop e c i (file_path # files) v =
     (if \<not> running_at e i 0 then Some (trace v @ [Finished stopped_msg (error_log v)])
      else case pause_wait e i 0 (trace v) of
             None \<Rightarrow> None
           | Some (False, tr) \<Rightarrow> Some (tr @ [Finished stopped_msg (error_log v)])
           | Some (True, tr) \<Rightarrow> run_loop e c (Suc i) files (loop_body e c i file_path (v\<lparr>trace := tr\<rparr>)))"

text \<open>File collection: \<^verbatim>\<open>os.walk\<close>, or \<^verbatim>\<open>os.listdir\<close> filtered by \<^verbatim>\<open>os.path.isfile\<close>.\<close>

definition collect_files :: "env \<Rightarrow> string \<Rightarrow> bool \<Rightarrow> string + string list" where
  "collect_files e input process_subfolders_v =
     (if process_subfolders_v then
        Inr (case fs_lookup e input of
               None \<Rightarrow> []
             | Some n \<Rightarrow> concat (map (\<lambda>(dirpath, dirnames, filenames). map (path_join dirpath) filenames)
                                     (walk input n)))
      else
        (case fs_lookup e input of
           Some (Dir es) \<Rightarrow> Inr (map (\<lambda>en. path_join input (fst en)) (filter (\<lambda>en. \<not> is_dir (snd en)) es))
         | _ \<Rightarrow> Inl (oserror_text e input)))"

definition configured_extension :: "settings \<Rightarrow> string" where
  "configured_extension s = strip (case output_extension s of None \<Rightarrow> [] | Some x \<Rightarrow> x)"

definition final_system_prompt :: "settings \<Rightarrow> string" where
  "final_system_prompt s =
     (let system_prompt = the (prompt_text s) in
      if (case thinking_mode s of None \<Rightarrow> False | Some b \<Rightarrow> b)
      then thinking_instruction @ [CHR 0x0A, CHR 0x0A] @ ''---'' @ [CHR 0x0A, CHR 0x0A] @ system_prompt
      else system_prompt)"

definition run_consts_of :: "env \<Rightarrow> settings \<Rightarrow> nat \<Rightarrow> run_consts" where
  "run_consts_of e s total_files =
     \<lparr>l_input_path = the (input_path s), l_output_path = the (output_path s),
      l_final_system_prompt = final_system_prompt s,
      l_model = set_model (model_init_succeeds e) (selected_model_name s),
      l_processing_delay = (case processing_delay s of None \<Rightarrow> 1 | Some d \<Rightarrow> d),
      l_total_files = total_files\<rparr>"

definition initial_vars :: "settings \<Rightarrow> loop_vars" where
  "initial_vars s =
     \<lparr>error_log = [], success_count = 0, cur_output_extension = configured_extension s, trace = []\<rparr>"

definition required_settings :: "settings \<Rightarrow> bool" where
  "required_settings s =
     (truthy (input_path s) \<and> truthy (output_path s) \<and> truthy (prompt_text s)
      \<and> truthy (selected_model_name s))"

definition files_to_process :: "env \<Rightarrow> settings \<Rightarrow> string + string list" where
  "files_to_process e s =
     collect_files e (the (input_path s)) (case process_subfolders s of None \<Rightarrow> False | Some b \<Rightarrow> b)"

definition run :: "env \<Rightarrow> settings \<Rightarrow> event list option" where
  "run e s =
     (if \<not> required_settings s
      then Some [Finished ''Error: Missing required settings.'' []]
      else
        (case files_to_process e s of
           Inl ex \<Rightarrow> Some [Finished (''Error reading input folder: '' @ ex) []]
         | Inr files \<Rightarrow>
             (let total_files = length files in
              if total_files = 0
              then Some [Finished ''Processing finished: No files to process.'' []]
              else run_loop e (run_consts_of e s total_files) 0 files (initial_vars s))))"

section \<open>Reading a trace\<close>

fun saved_of :: "event list \<Rightarrow> (string \<times> string) list" where
  "saved_of [] = []"
| "saved_of (Saved p t # tr) = (p, t) # saved_of tr"
| "saved_of (ev # tr) = saved_of tr"

fun progress_of :: "event list \<Rightarrow> (nat \<times> nat \<times> string) list" where
  "progress_of [] = []"
| "progress_of (Progress a b n # tr) = (a, b, n) # progress_of tr"
| "progress_of (ev # tr) = progress_of tr"

fun requests_of :: "event list \<Rightarrow> (string \<times> string) list" where
  "requests_of [] = []"
| "requests_of (ApiRequest sp up # tr) = (sp, up) # requests_of tr"
| "requests_of (ev # tr) = requests_of tr"

fun delays_of :: "event list \<Rightarrow> nat list" where
  "delays_of [] = []"
| "delays_of (DelaySleep d # tr) = d # delays_of tr"
| "delays_of (ev # tr) = delays_of tr"

fun finished_of :: "event list \<Rightarrow> (string \<times> string list) list" where
  "finished_of [] = []"
| "finished_of (Finished m errs # tr) = (m, errs) # finished_of tr"
| "finished_of (ev # tr) = finished_of tr"

fun lefts :: "('a + 'b) list \<Rightarrow> 'a list" where
  "lefts [] = []"
| "lefts (Inl a # rs) = a # lefts rs"
| "lefts (Inr b # rs) = lefts rs"

fun rights :: "('a + 'b) list \<Rightarrow> 'b list" where
  "rights [] = []"
| "rights (Inl a # rs) = rights rs"
| "rights (Inr b # rs) = b # rights rs"

text \<open>
  What iteration \<open>i\<close> comes to for \<open>file_path\<close> when the configured extension (after
  \<^verbatim>\<open>strip\<close>) is \<open>ext\<close>: the entry appended to the error log (\<open>Inl\<close>) when reading
  raises, the answer starts with \<^verbatim>\<open>ERROR:\<close> or writing raises; the path and content
  saved (\<open>Inr\<close>) otherwise.
\<close>

definition file_result :: "env \<Rightarrow> run_consts \<Rightarrow> string \<Rightarrow> nat \<Rightarrow> string \<Rightarrow> string + string \<times> string" where
  "file_result e c ext i file_path =
     (case read_text e i file_path of
        Inl ex \<Rightarrow> Inl (critical_error_msg (basename file_path) ex)
      | Inr file_content \<Rightarrow>
          (let processed_content =
                 generate_content (l_model c) (sdk_generate e i) (l_final_system_prompt c) file_content
           in if startswith processed_content ''ERROR:''
              then Inl (api_error_msg (basename file_path) processed_content)
              else (case write_text e i (output_file_path e c ext file_path) processed_content of
                      Some ex \<Rightarrow> Inl (critical_error_msg (basename file_path) ex)
                    | None \<Rightarrow> Inr (output_file_path e c ext file_path, processed_content))))"

definition results :: "env \<Rightarrow> run_consts \<Rightarrow> string \<Rightarrow> nat \<Rightarrow> string list \<Rightarrow> (string + string \<times> string) list" where
  "results e c ext i files = map (\<lambda>(j, f). file_result e c ext j f) (enumerate i files)"

text \<open>
  The local \<^verbatim>\<open>output_extension\<close> holds the configured extension \<open>ext\<close>, or \<open>ext\<close> with the
  dot the first written file put in front of it.
\<close>

definition ext_inv :: "string \<Rightarrow> loop_vars \<Rightarrow> bool" where
  "ext_inv ext v = (cur_output_extension v = ext \<or> cur_output_extension v = dotted ext)"

section \<open>file_processor.py: the pre-flight scan\<close>


















section \<open>JSON values\<close>

text \<open>
  What \<^verbatim>\<open>json.load\<close> returns. An object is a Python dictionary with string keys, kept as
  an association list in insertion order; \<open>'n\<close> is the type of numbers.
\<close>

datatype 'n json = JNull | JBool bool | JNum 'n | JStr string | JArr "'n json list"
  | JObj "(string \<times> 'n json) list"





section \<open>settings_handler.py\<close>

text \<open>
  The settings file: absent, present but not readable as JSON (opening raises
  \<^verbatim>\<open>IOError\<close> or the content is not JSON), or holding a JSON document.
\<close>

datatype 'n settings_file = Missing | Unreadable | Document "'n json"







section \<open>main.py: the update check\<close>










section \<open>Sample surroundings\<close>

definition demo_tree :: node where
  "demo_tree = Dir [(''a.txt'', File), (''notes.md'', File), (''sub'', Dir [(''b.txt'', File)])]"

definition demo_env :: env where
  "demo_env =
     \<lparr>running_at = (\<lambda>i k. True), paused_at = (\<lambda>i k. False),
      fs_lookup = (\<lambda>p. if p = ''in'' then Some demo_tree else None),
      oserror_text = (\<lambda>p. ''No such file or directory: '' @ p),
      read_text = (\<lambda>i p. if p = ''in/notes.md'' then Inl ''Permission denied'' else Inr (''text of '' @ p)),
      model_init_succeeds = (\<lambda>n. True),
      sdk_generate = (\<lambda>i m sp up. if up = ''text of in/sub/b.txt'' then Inl ''quota'' else Inr (''out: '' @ up)),
      relpath = (\<lambda>p start. drop (length start + 1) p),
      write_text = (\<lambda>i p t. None)\<rparr>"

definition demo_settings :: settings where
  "demo_settings =
     \<lparr>input_path = Some ''in'', output_path = Some ''out'', prompt_text = Some ''Fix typos.'',
      selected_model_name = Some ''gemini'', output_extension = Some '' json '',
      processing_delay = Some 2, thinking_mode = None, process_subfolders = Some True\<rparr>"

definition demo_files :: "string list" where
  "demo_files = [''in/a.txt'', ''in/notes.md'', ''in/sub/b.txt'']"

definition demo_trace :: "event list" where
  "demo_trace =
     [Progress 1 3 ''a.txt'', ApiRequest ''Fix typos.'' ''text of in/a.txt'',
      Saved ''out/a.json'' ''out: text of in/a.txt'', DelaySleep 2,
      Progress 2 3 ''notes.md'',
      Progress 3 3 ''b.txt'', ApiRequest ''Fix typos.'' ''text of in/sub/b.txt'',
      Finished (''Processing finished with issues. '' @ [CHR 0x0A] @ ''Processed: 1 | Failed: 2'')
        [''File: notes.md | A file system or other critical error occurred: Permission denied'',
         ''File: b.txt | ERROR: An exception occurred during generation: quota'']]"

text \<open>The stop arrives while the last file is being processed.\<close>

definition stop_env :: env where
  "stop_env = demo_env\<lparr>running_at := (\<lambda>i k. i < 3)\<rparr>"



text \<open>The model answers with a text that itself begins with \<^verbatim>\<open>ERROR:\<close>.\<close>

definition error_text_env :: env where
  "error_text_env = demo_env\<lparr>sdk_generate := (\<lambda>i m sp up. Inr (''ERROR: is the first word of '' @ up))\<rparr>"





section \<open>Properties of splitext\<close>

lemma rfind_ge: "- 1 \<le> rfind c p"
  by (induction p) (auto simp: Let_def)

lemma rfind_neg_iff: "rfind c p < 0 \<longleftrightarrow> c \<notin> set p"
  by (induction p) (auto simp: Let_def)

lemma rfind_lt: "rfind c p < int (length p)"
  by (induction p) (auto simp: Let_def)

lemma rfind_split:
  "0 \<le> rfind c p \<Longrightarrow> p = take (nat (rfind c p)) p @ c # drop (Suc (nat (rfind c p))) p
                         \<and> c \<notin> set (drop (Suc (nat (rfind c p))) p)"
proof (induction p)
  case Nil
  then show ?case by simp
next
  case (Cons x xs)
  show ?case
  proof (cases "0 \<le> rfind c xs")
    case True
    with Cons.IH have ih: "xs = take (nat (rfind c xs)) xs @ c # drop (Suc (nat (rfind c xs))) xs"
      "c \<notin> set (drop (Suc (nat (rfind c xs))) xs)" by auto
    have n: "nat (rfind c xs + 1) = Suc (nat (rfind c xs))" using True by simp
    show ?thesis using True ih by (simp add: Let_def n)
  next
    case False
    with Cons.prems have xc: "x = c" by (auto simp: Let_def split: if_splits)
    from False have "c \<notin> set xs" using rfind_neg_iff[of c xs] by simp
    with False xc show ?thesis by (simp add: Let_def)
  qed
qed


lemma rfind_append:
  "rfind c (pre @ rest) = (if c \<in> set rest then int (length pre) + rfind c rest else rfind c pre)"
proof (induction pre)
  case Nil
  then show ?case using rfind_neg_iff[of c rest] rfind_ge[of c rest] by auto
next
  case (Cons x xs)
  show ?case
  proof (cases "c \<in> set rest")
    case True
    then have "0 \<le> rfind c rest" using rfind_neg_iff[of c rest] by simp
    with Cons True show ?thesis by (simp add: Let_def)
  next
    case False
    with Cons show ?thesis by (simp add: Let_def)
  qed
qed

lemma sep_decomp:
  obtains pre rest where "p = pre @ rest" "int (length pre) = rfind c p + 1"
    "pre = [] \<or> last pre = c" "c \<notin> set rest"
proof (cases "0 \<le> rfind c p")
  case True
  from rfind_split[OF True] have sp: "p = take (nat (rfind c p)) p @ c # drop (Suc (nat (rfind c p))) p"
    and ni: "c \<notin> set (drop (Suc (nat (rfind c p))) p)" by auto
  have len: "nat (rfind c p) < length p" using rfind_lt[of c p] True by simp
  show ?thesis
  proof (rule that[of "take (nat (rfind c p)) p @ [c]" "drop (Suc (nat (rfind c p))) p"])
    show "p = (take (nat (rfind c p)) p @ [c]) @ drop (Suc (nat (rfind c p))) p" using sp by simp
    show "int (length (take (nat (rfind c p)) p @ [c])) = rfind c p + 1" using len True by simp
    show "take (nat (rfind c p)) p @ [c] = [] \<or> last (take (nat (rfind c p)) p @ [c]) = c" by simp
    show "c \<notin> set (drop (Suc (nat (rfind c p))) p)" by (rule ni)
  qed
next
  case False
  then have m1: "rfind c p = - 1" using rfind_ge[of c p] by simp
  from False have "c \<notin> set p" using rfind_neg_iff[of c p] by simp
  then show ?thesis using m1 by (intro that[of "[]" p]) auto
qed

lemma basename_decomp:
  assumes "pre = [] \<or> last pre = CHR ''/''" and "CHR ''/'' \<notin> set m"
  shows "basename (pre @ m) = m"
proof -
  have tw: "takeWhile (\<lambda>c. c \<noteq> CHR ''/'') (rev m @ rev pre) = rev m"
  proof (cases pre rule: rev_cases)
    case Nil
    with assms(2) show ?thesis by (auto simp: takeWhile_eq_all_conv)
  next
    case (snoc ys y)
    with assms(1) have "y = CHR ''/''" by simp
    with snoc assms(2) show ?thesis by (auto simp: takeWhile_tail takeWhile_eq_all_conv)
  qed
  then show ?thesis by (simp add: basename_def)
qed

lemma skip_leading_dots_decomp:
  "skip_leading_dots (pre @ m @ s) (length pre) (length pre + length m) = (\<exists>c\<in>set m. c \<noteq> CHR ''.'')"
proof (induction m arbitrary: pre)
  case Nil
  then show ?case by (subst skip_leading_dots.simps) simp
next
  case (Cons x m)
  have "skip_leading_dots ((pre @ [x]) @ m @ s) (length (pre @ [x])) (length (pre @ [x]) + length m)
        = (\<exists>c\<in>set m. c \<noteq> CHR ''.'')" by (rule Cons.IH)
  then have ih: "skip_leading_dots (pre @ x # m @ s) (Suc (length pre)) (Suc (length pre + length m))
        = (\<exists>c\<in>set m. c \<noteq> CHR ''.'')" by simp
  show ?case
    using ih by (subst skip_leading_dots.simps) auto
qed

text \<open>What \<open>splitext\<close> returns, without its code.\<close>

lemma splitext_cases:
  obtains (noext) "splitext p = (p, [])"
      "CHR ''.'' \<notin> set (dropWhile (\<lambda>c. c = CHR ''.'') (basename p))"
  | (ext) pre m t where "p = pre @ m @ CHR ''.'' # t" "pre = [] \<or> last pre = CHR ''/''"
      "CHR ''/'' \<notin> set m" "CHR ''/'' \<notin> set t" "CHR ''.'' \<notin> set t" "\<exists>c\<in>set m. c \<noteq> CHR ''.''"
      "splitext p = (pre @ m, CHR ''.'' # t)"
proof -
  obtain pre rest where d: "p = pre @ rest" "int (length pre) = rfind CHR ''/'' p + 1"
    "pre = [] \<or> last pre = CHR ''/''" "CHR ''/'' \<notin> set rest"
    by (rule sep_decomp[of p "CHR ''/''"])
  have bn: "basename p = rest" unfolding d(1) by (rule basename_decomp[OF d(3,4)])
  show ?thesis
  proof (cases "CHR ''.'' \<in> set rest")
    case False
    have "rfind CHR ''.'' p = rfind CHR ''.'' pre" using False by (simp add: d(1) rfind_append)
    then have "rfind CHR ''.'' p \<le> rfind CHR ''/'' p"
      using rfind_lt[of "CHR ''.''" pre] d(2) by simp
    then have "splitext p = (p, [])" by (simp add: splitext_def Let_def)
    moreover have "CHR ''.'' \<notin> set (dropWhile (\<lambda>c. c = CHR ''.'') (basename p))"
      using False bn set_dropWhileD by fastforce
    ultimately show ?thesis by (rule noext)
  next
    case True
    then have nn: "0 \<le> rfind CHR ''.'' rest" using rfind_neg_iff[of "CHR ''.''" rest] by simp
    define m where "m = take (nat (rfind CHR ''.'' rest)) rest"
    define t where "t = drop (Suc (nat (rfind CHR ''.'' rest))) rest"
    from rfind_split[OF nn] have r: "rest = m @ CHR ''.'' # t" and nt: "CHR ''.'' \<notin> set t"
      by (simp_all add: m_def t_def)
    have lm: "length m = nat (rfind CHR ''.'' rest)"
      using rfind_lt[of "CHR ''.''" rest] nn by (simp add: m_def)
    have dot: "rfind CHR ''.'' p = int (length pre) + int (length m)"
      using True nn by (simp add: d(1) rfind_append lm)
    have gt: "rfind CHR ''/'' p < rfind CHR ''.'' p" using dot d(2) by simp
    have n1: "nat (rfind CHR ''/'' p + 1) = length pre" using d(2) by simp
    have n2: "nat (rfind CHR ''.'' p) = length pre + length m" using dot by simp
    have pp: "p = pre @ m @ CHR ''.'' # t" using d(1) r by simp
    have sk: "skip_leading_dots p (nat (rfind CHR ''/'' p + 1)) (nat (rfind CHR ''.'' p))
              = (\<exists>c\<in>set m. c \<noteq> CHR ''.'')"
      unfolding n1 n2 by (subst pp) (rule skip_leading_dots_decomp)
    have sl: "CHR ''/'' \<notin> set m" "CHR ''/'' \<notin> set t" using d(4) r by auto
    show ?thesis
    proof (cases "\<exists>c\<in>set m. c \<noteq> CHR ''.''")
      case ex: True
      have tk: "take (length pre + length m) p = pre @ m" "drop (length pre + length m) p = CHR ''.'' # t"
        by (simp_all add: pp)
      have "splitext p = (pre @ m, CHR ''.'' # t)"
        using gt sk ex by (simp add: splitext_def Let_def n2 tk)
      with pp d(3) sl nt ex show ?thesis by (intro ext[of pre m t]) auto
    next
      case nex: False
      have "splitext p = (p, [])"
        using sk nex by (simp add: splitext_def Let_def)
      moreover have "dropWhile (\<lambda>c. c = CHR ''.'') (m @ CHR ''.'' # t) = dropWhile (\<lambda>c. c = CHR ''.'') t"
        using nex by (simp add: dropWhile_append2)
      then have "CHR ''.'' \<notin> set (dropWhile (\<lambda>c. c = CHR ''.'') (basename p))"
        using nt bn r set_dropWhileD by fastforce
      ultimately show ?thesis by (rule noext)
    qed
  qed
qed

lemma splitext_spec:
  "fst (splitext p) @ snd (splitext p) = p
   \<and> (snd (splitext p) \<noteq> [] \<longrightarrow>
        (\<exists>t. snd (splitext p) = CHR ''.'' # t \<and> CHR ''.'' \<notin> set t \<and> CHR ''/'' \<notin> set t)
        \<and> (\<exists>c\<in>set (basename (fst (splitext p))). c \<noteq> CHR ''.''))
   \<and> (snd (splitext p) = [] \<longrightarrow>
        CHR ''.'' \<notin> set (dropWhile (\<lambda>c. c = CHR ''.'') (basename p)))"
proof (cases p rule: splitext_cases)
  case noext
  then show ?thesis by simp
next
  case (ext pre m t)
  have "basename (pre @ m) = m" by (rule basename_decomp[OF ext(2,3)])
  with ext show ?thesis by simp
qed

section \<open>Properties of the run loop\<close>

subsection \<open>The pause loop\<close>


lemma pause_wait_stop:
  "(\<forall>k<n. paused_at e i (k0 + k) \<and> running_at e i (Suc (k0 + k))) \<Longrightarrow> paused_at e i (k0 + n)
   \<Longrightarrow> \<not> running_at e i (Suc (k0 + n))
   \<Longrightarrow> pause_wait e i k0 tr = Some (False, tr @ replicate (Suc n) PauseSleep)"
proof (induction n arbitrary: k0 tr)
  case 0
  then show ?case by (subst pause_wait.simps) simp
next
  case (Suc n)
  have p0: "paused_at e i k0" and r0: "running_at e i (Suc k0)"
    using Suc.prems(1) by force+
  have "pause_wait e i (Suc k0) (tr @ [PauseSleep]) = Some (False, (tr @ [PauseSleep]) @ replicate (Suc n) PauseSleep)"
  proof (rule Suc.IH)
    show "\<forall>k<n. paused_at e i (Suc k0 + k) \<and> running_at e i (Suc (Suc k0 + k))"
      using Suc.prems(1) by (metis Suc_less_eq add_Suc_shift)
    show "paused_at e i (Suc k0 + n)" using Suc.prems(2) by simp
    show "\<not> running_at e i (Suc (Suc k0 + n))" using Suc.prems(3) by simp
  qed
  then show ?case using p0 r0
    by (subst pause_wait.simps) (simp add: replicate_app_Cons_same)
qed



lemma pause_wait_shape:
  "pause_wait e i k tr = Some r \<Longrightarrow>
     \<exists>n. snd r = tr @ replicate n PauseSleep
       \<and> (\<forall>j<n. paused_at e i (k + j))
       \<and> (fst r \<longrightarrow> \<not> paused_at e i (k + n) \<and> (\<forall>j<n. running_at e i (Suc (k + j))))
       \<and> (\<not> fst r \<longrightarrow> 0 < n \<and> \<not> running_at e i (k + n))"
proof (induction rule: pause_wait.raw_induct[rotated 1, consumes 1])
  case (1 pw e i k tr r)
  show ?case
  proof (cases "paused_at e i k")
    case False
    with 1(2) have "r = (True, tr)" by auto
    with False show ?thesis by (intro exI[of _ 0]) simp
  next
    case True
    show ?thesis
    proof (cases "running_at e i (Suc k)")
      case False
      with True 1(2) have "r = (False, tr @ [PauseSleep])" by auto
      with True False show ?thesis by (intro exI[of _ 1]) simp
    next
      case run: True
      with True 1(2) have "pw e i (Suc k) (tr @ [PauseSleep]) = Some r" by simp
      from 1(1)[OF this] obtain n where n:
        "snd r = (tr @ [PauseSleep]) @ replicate n PauseSleep"
        "\<forall>j<n. paused_at e i (Suc k + j)"
        "fst r \<longrightarrow> \<not> paused_at e i (Suc k + n) \<and> (\<forall>j<n. running_at e i (Suc (Suc k + j)))"
        "\<not> fst r \<longrightarrow> 0 < n \<and> \<not> running_at e i (Suc k + n)" by blast
      have a: "\<forall>j<Suc n. paused_at e i (k + j)"
        using True n(2) by (auto simp: less_Suc_eq_0_disj)
      have b: "fst r \<longrightarrow> (\<forall>j<Suc n. running_at e i (Suc (k + j)))"
        using run n(3) by (auto simp: less_Suc_eq_0_disj)
      show ?thesis
        using n a b by (intro exI[of _ "Suc n"]) (simp add: replicate_app_Cons_same)
    qed
  qed
qed


subsection \<open>One iteration\<close>

lemma saved_of_append [simp]: "saved_of (a @ b) = saved_of a @ saved_of b"
  by (induction a rule: saved_of.induct) auto
lemma progress_of_append [simp]: "progress_of (a @ b) = progress_of a @ progress_of b"
  by (induction a rule: progress_of.induct) auto
lemma requests_of_append [simp]: "requests_of (a @ b) = requests_of a @ requests_of b"
  by (induction a rule: requests_of.induct) auto
lemma delays_of_append [simp]: "delays_of (a @ b) = delays_of a @ delays_of b"
  by (induction a rule: delays_of.induct) auto
lemma finished_of_append [simp]: "finished_of (a @ b) = finished_of a @ finished_of b"
  by (induction a rule: finished_of.induct) auto
lemma lefts_append [simp]: "lefts (a @ b) = lefts a @ lefts b"
  by (induction a rule: lefts.induct) auto
lemma rights_append [simp]: "rights (a @ b) = rights a @ rights b"
  by (induction a rule: rights.induct) auto
lemma length_lefts_rights: "length (lefts rs) + length (rights rs) = length rs"
  by (induction rs rule: lefts.induct) auto

lemma of_replicate_PauseSleep [simp]:
  "saved_of (replicate n PauseSleep) = []" "progress_of (replicate n PauseSleep) = []"
  "requests_of (replicate n PauseSleep) = []" "delays_of (replicate n PauseSleep) = []"
  "finished_of (replicate n PauseSleep) = []"
  by (induction n) auto

lemma dotted_idem [simp]: "dotted (dotted ext) = dotted ext"
  by (auto simp: dotted_def startswith_def)
lemma dotted_Nil_iff [simp]: "dotted ext = [] \<longleftrightarrow> ext = []"
  by (auto simp: dotted_def)
lemma final_relative_path_dotted [simp]:
  "final_relative_path (dotted ext) rel = final_relative_path ext rel"
  by (simp add: final_relative_path_def)
lemma output_file_path_dotted [simp]:
  "output_file_path e c (dotted ext) f = output_file_path e c ext f"
  by (simp add: output_file_path_def)

lemma ext_inv_path: "ext_inv ext v \<Longrightarrow> output_file_path e c (cur_output_extension v) f = output_file_path e c ext f"
  by (auto simp: ext_inv_def)

lemma loop_body_ext_inv: "ext_inv ext v \<Longrightarrow> ext_inv ext (loop_body e c i f v)"
  by (auto simp: ext_inv_def loop_body_def Let_def split: sum.splits option.splits)

lemma loop_body_error_log:
  "ext_inv ext v \<Longrightarrow> error_log (loop_body e c i f v) = error_log v @ lefts [file_result e c ext i f]"
  by (auto simp: loop_body_def file_result_def Let_def ext_inv_def split: sum.splits option.splits)

lemma loop_body_success_count:
  "ext_inv ext v \<Longrightarrow> success_count (loop_body e c i f v) = success_count v + length (rights [file_result e c ext i f])"
  by (auto simp: loop_body_def file_result_def Let_def ext_inv_def split: sum.splits option.splits)

lemma loop_body_saved:
  "ext_inv ext v \<Longrightarrow> saved_of (trace (loop_body e c i f v)) = saved_of (trace v) @ rights [file_result e c ext i f]"
  by (auto simp: loop_body_def file_result_def Let_def ext_inv_def split: sum.splits option.splits)

lemma loop_body_progress:
  "progress_of (trace (loop_body e c i f v)) = progress_of (trace v) @ [(i + 1, l_total_files c, basename f)]"
  by (auto simp: loop_body_def Let_def split: sum.splits option.splits)

lemma loop_body_finished:
  "finished_of (trace (loop_body e c i f v)) = finished_of (trace v)"
  by (auto simp: loop_body_def Let_def split: sum.splits option.splits)




subsection \<open>The whole loop\<close>

lemma results_Nil [simp]: "results e c ext i [] = []"
  by (simp add: results_def)
lemma results_Cons [simp]: "results e c ext i (f # fs) = file_result e c ext i f # results e c ext (Suc i) fs"
  by (simp add: results_def)
lemma length_results [simp]: "length (results e c ext i fs) = length fs"
  by (simp add: results_def)


lemma run_loop_complete:
  assumes "\<forall>j k. running_at e j k" and "run_loop e c i files v = Some tr" and "ext_inv ext v"
  shows "\<exists>tr0. tr = tr0 @ [Finished (summary_message (success_count v + length (rights (results e c ext i files)))
                               (l_total_files c) (error_log v @ lefts (results e c ext i files)))
                            (error_log v @ lefts (results e c ext i files))]
           \<and> saved_of tr0 = saved_of (trace v) @ rights (results e c ext i files)
           \<and> progress_of tr0 = progress_of (trace v) @ map (\<lambda>(j, f). (j + 1, l_total_files c, basename f)) (enumerate i files)
           \<and> finished_of tr0 = finished_of (trace v)"
  using assms(2,3)
proof (induction files arbitrary: i v)
  case Nil
  then show ?case using assms(1) by auto
next
  case (Cons f fs)
  from Cons.prems(1) assms(1) obtain r where pw: "pause_wait e i 0 (trace v) = Some r"
    by (cases "pause_wait e i 0 (trace v)") auto
  from pause_wait_shape[OF pw] assms(1) obtain n where n: "snd r = trace v @ replicate n PauseSleep" "fst r"
    by auto
  then have r: "r = (True, trace v @ replicate n PauseSleep)" by (cases r) auto
  define v1 where "v1 = v\<lparr>trace := trace v @ replicate n PauseSleep\<rparr>"
  define v' where "v' = loop_body e c i f v1"
  have inv1: "ext_inv ext v1" using Cons.prems(2) by (simp add: v1_def ext_inv_def)
  have rl: "run_loop e c (Suc i) fs v' = Some tr"
    using Cons.prems(1) assms(1) pw r by (simp add: v'_def v1_def)
  have inv': "ext_inv ext v'" unfolding v'_def by (rule loop_body_ext_inv[OF inv1])
  from Cons.IH[OF rl inv'] obtain tr0 where tr0:
    "tr = tr0 @ [Finished (summary_message (success_count v' + length (rights (results e c ext (Suc i) fs)))
                               (l_total_files c) (error_log v' @ lefts (results e c ext (Suc i) fs)))
                            (error_log v' @ lefts (results e c ext (Suc i) fs))]"
    "saved_of tr0 = saved_of (trace v') @ rights (results e c ext (Suc i) fs)"
    "progress_of tr0 = progress_of (trace v') @ map (\<lambda>(j, f). (j + 1, l_total_files c, basename f)) (enumerate (Suc i) fs)"
    "finished_of tr0 = finished_of (trace v')" by blast
  have el: "error_log v' = error_log v @ lefts [file_result e c ext i f]"
    unfolding v'_def using loop_body_error_log[OF inv1] by (simp add: v1_def)
  have sc: "success_count v' = success_count v + length (rights [file_result e c ext i f])"
    unfolding v'_def using loop_body_success_count[OF inv1] by (simp add: v1_def)
  have sv: "saved_of (trace v') = saved_of (trace v) @ rights [file_result e c ext i f]"
    unfolding v'_def using loop_body_saved[OF inv1] by (simp add: v1_def)
  have pr: "progress_of (trace v') = progress_of (trace v) @ [(i + 1, l_total_files c, basename f)]"
    unfolding v'_def using loop_body_progress[of e c i f v1] by (simp add: v1_def)
  have fi: "finished_of (trace v') = finished_of (trace v)"
    unfolding v'_def using loop_body_finished[of e c i f v1] by (simp add: v1_def)
  have e1: "error_log v' @ lefts (results e c ext (Suc i) fs) = error_log v @ lefts (results e c ext i (f # fs))"
    by (cases "file_result e c ext i f") (simp_all add: el)
  have e2: "success_count v' + length (rights (results e c ext (Suc i) fs))
          = success_count v + length (rights (results e c ext i (f # fs)))"
    by (cases "file_result e c ext i f") (simp_all add: sc)
  have e3: "saved_of tr0 = saved_of (trace v) @ rights (results e c ext i (f # fs))"
    by (cases "file_result e c ext i f") (simp_all add: tr0(2) sv)
  have e4: "progress_of tr0 = progress_of (trace v) @ map (\<lambda>(j, f). (j + 1, l_total_files c, basename f)) (enumerate i (f # fs))"
    using tr0(3) pr by simp
  have e0: "tr = tr0 @ [Finished (summary_message (success_count v + length (rights (results e c ext i (f # fs))))
                               (l_total_files c) (error_log v @ lefts (results e c ext i (f # fs))))
                            (error_log v @ lefts (results e c ext i (f # fs)))]"
    using tr0(1) by (simp only: e1 e2)
  have e5: "finished_of tr0 = finished_of (trace v)" using tr0(4) fi by (rule trans)
  show ?case
    using e0 e3 e4 e5 by blast
qed

lemma run_loop_general:
  assumes "run_loop e c i files v = Some tr" and "ext_inv ext v"
  shows "\<exists>m\<le>length files. saved_of tr = saved_of (trace v) @ rights (results e c ext i (take m files))
           \<and> progress_of tr = progress_of (trace v) @ map (\<lambda>(j, f). (j + 1, l_total_files c, basename f)) (enumerate i (take m files))"
  using assms
proof (induction files arbitrary: i v)
  case Nil
  then show ?case by auto
next
  case (Cons f fs)
  show ?case
  proof (cases "running_at e i 0")
    case False
    with Cons.prems(1) have "tr = trace v @ [Finished stopped_msg (error_log v)]" by simp
    then show ?thesis by (intro exI[of _ 0]) simp
  next
    case True
    with Cons.prems(1) obtain r where pw: "pause_wait e i 0 (trace v) = Some r"
      by (cases "pause_wait e i 0 (trace v)") auto
    from pause_wait_shape[OF pw] obtain n where n: "snd r = trace v @ replicate n PauseSleep" by auto
    show ?thesis
    proof (cases "fst r")
      case False
      then have "r = (False, trace v @ replicate n PauseSleep)" using n by (cases r) auto
      with Cons.prems(1) True pw have "tr = trace v @ replicate n PauseSleep @ [Finished stopped_msg (error_log v)]" by simp
      then show ?thesis by (intro exI[of _ 0]) simp
    next
      case fr: True
      then have r: "r = (True, trace v @ replicate n PauseSleep)" using n by (cases r) auto
      define v1 where "v1 = v\<lparr>trace := trace v @ replicate n PauseSleep\<rparr>"
      define v' where "v' = loop_body e c i f v1"
      have inv1: "ext_inv ext v1" using Cons.prems(2) by (simp add: v1_def ext_inv_def)
      have rl: "run_loop e c (Suc i) fs v' = Some tr"
        using Cons.prems(1) True pw r by (simp add: v'_def v1_def)
      have inv': "ext_inv ext v'" unfolding v'_def by (rule loop_body_ext_inv[OF inv1])
      from Cons.IH[OF rl inv'] obtain m where m: "m \<le> length fs"
        "saved_of tr = saved_of (trace v') @ rights (results e c ext (Suc i) (take m fs))"
        "progress_of tr = progress_of (trace v') @ map (\<lambda>(j, f). (j + 1, l_total_files c, basename f)) (enumerate (Suc i) (take m fs))"
        by blast
      have sv: "saved_of (trace v') = saved_of (trace v) @ rights [file_result e c ext i f]"
        unfolding v'_def using loop_body_saved[OF inv1] by (simp add: v1_def)
      have pr: "progress_of (trace v') = progress_of (trace v) @ [(i + 1, l_total_files c, basename f)]"
        unfolding v'_def using loop_body_progress[of e c i f v1] by (simp add: v1_def)
      have e3: "saved_of tr = saved_of (trace v) @ rights (results e c ext i (take (Suc m) (f # fs)))"
        by (cases "file_result e c ext i f") (simp_all add: m(2) sv)
      have e4: "progress_of tr = progress_of (trace v) @ map (\<lambda>(j, f). (j + 1, l_total_files c, basename f)) (enumerate i (take (Suc m) (f # fs)))"
        using m(3) pr by simp
      show ?thesis using m(1) e3 e4 by (intro exI[of _ "Suc m"]) simp
    qed
  qed
qed


lemma splitext_concat: "fst (splitext p) @ snd (splitext p) = p"
  by (simp add: splitext_def Let_def)

lemma run_unfold:
  assumes "required_settings s" and "files_to_process e s = Inr files" and "files \<noteq> []"
  shows "run e s = run_loop e (run_consts_of e s (length files)) 0 files (initial_vars s)"
  using assms by (simp add: run_def Let_def)

lemma run_consts_of_sel:
  "l_input_path (run_consts_of e s n) = the (input_path s)"
  "l_output_path (run_consts_of e s n) = the (output_path s)"
  "l_total_files (run_consts_of e s n) = n"
  "l_final_system_prompt (run_consts_of e s n) = final_system_prompt s"
  by (simp_all add: run_consts_of_def)

lemma ext_inv_initial: "ext_inv (configured_extension s) (initial_vars s)"
  by (simp add: ext_inv_def initial_vars_def)

lemma file_result_path:
  assumes "file_result e c ext i f = Inr (p, t)"
  shows "p = path_join (l_output_path c)
               (if ext = [] then relpath e f (l_input_path c)
                else fst (splitext (relpath e f (l_input_path c)))
                       @ (if startswith ext ''.'' then ext else ''.'' @ ext))"
  using assms
  by (auto simp: file_result_def output_file_path_def final_relative_path_def dotted_def Let_def
           split: sum.splits option.splits if_splits)

section \<open>Properties of the pre-flight scan\<close>

















section \<open>Properties of the settings file\<close>





section \<open>The claims\<close>

text \<open>
  C1. A run saves only files of the collected list, in order, and each of them at the
  output directory joined with the file's path relative to the input directory: with
  its extension (the second part of \<^verbatim>\<open>splitext\<close>) replaced by the configured one when
  that is not empty, a dot put in front of it when it has none, and unchanged otherwise.
  The configured extension is the setting with surrounding whitespace stripped.
\<close>

theorem output_path_mirrors_relative_path:
  assumes "required_settings s" and "files_to_process e s = Inr files" and "run e s = Some tr"
  shows "(\<exists>m\<le>length files.
            saved_of tr = rights (results e (run_consts_of e s (length files)) (configured_extension s) 0 (take m files)))
       \<and> (\<forall>i f p t. file_result e (run_consts_of e s (length files)) (configured_extension s) i f = Inr (p, t) \<longrightarrow>
             p = path_join (the (output_path s))
                   (if configured_extension s = [] then relpath e f (the (input_path s))
                    else fst (splitext (relpath e f (the (input_path s))))
                           @ (if startswith (configured_extension s) ''.'' then configured_extension s
                              else ''.'' @ configured_extension s)))
       \<and> (\<forall>p. fst (splitext p) @ snd (splitext p) = p
              \<and> (snd (splitext p) \<noteq> [] \<longrightarrow>
                   (\<exists>t. snd (splitext p) = CHR ''.'' # t \<and> CHR ''.'' \<notin> set t \<and> CHR ''/'' \<notin> set t)
                   \<and> (\<exists>c\<in>set (basename (fst (splitext p))). c \<noteq> CHR ''.''))
              \<and> (snd (splitext p) = [] \<longrightarrow>
                   CHR ''.'' \<notin> set (dropWhile (\<lambda>c. c = CHR ''.'') (basename p))))"
proof (intro conjI)
  show "\<exists>m\<le>length files.
            saved_of tr = rights (results e (run_consts_of e s (length files)) (configured_extension s) 0 (take m files))"
  proof (cases "files = []")
    case True
    with assms have "tr = [Finished ''Processing finished: No files to process.'' []]"
      by (simp add: run_def)
    then show ?thesis by (intro exI[of _ 0]) simp
  next
    case False
    from assms(3) have "run_loop e (run_consts_of e s (length files)) 0 files (initial_vars s) = Some tr"
      by (simp add: run_unfold[OF assms(1,2) False])
    from run_loop_general[OF this ext_inv_initial] show ?thesis
      by (auto simp: initial_vars_def)
  qed
  show "\<forall>i f p t. file_result e (run_consts_of e s (length files)) (configured_extension s) i f = Inr (p, t) \<longrightarrow>
             p = path_join (the (output_path s))
                   (if configured_extension s = [] then relpath e f (the (input_path s))
                    else fst (splitext (relpath e f (the (input_path s))))
                           @ (if startswith (configured_extension s) ''.'' then configured_extension s
                              else ''.'' @ configured_extension s))"
  proof (intro allI impI)
    fix i f p t
    assume "file_result e (run_consts_of e s (length files)) (configured_extension s) i f = Inr (p, t)"
    from file_result_path[OF this] show "p = path_join (the (output_path s))
                   (if configured_extension s = [] then relpath e f (the (input_path s))
                    else fst (splitext (relpath e f (the (input_path s))))
                           @ (if startswith (configured_extension s) ''.'' then configured_extension s
                              else ''.'' @ configured_extension s))"
      by (simp only: run_consts_of_sel)
  qed
  show "\<forall>p. fst (splitext p) @ snd (splitext p) = p
              \<and> (snd (splitext p) \<noteq> [] \<longrightarrow>
                   (\<exists>t. snd (splitext p) = CHR ''.'' # t \<and> CHR ''.'' \<notin> set t \<and> CHR ''/'' \<notin> set t)
                   \<and> (\<exists>c\<in>set (basename (fst (splitext p))). c \<noteq> CHR ''.''))
              \<and> (snd (splitext p) = [] \<longrightarrow>
                   CHR ''.'' \<notin> set (dropWhile (\<lambda>c. c = CHR ''.'') (basename p)))"
    using splitext_spec by blast
qed

theorem output_path_mirrors_relative_path_witness:
  "required_settings demo_settings
   \<and> files_to_process demo_env demo_settings = Inr demo_files
   \<and> run demo_env demo_settings = Some demo_trace
   \<and> (\<exists>m\<le>length demo_files.
         saved_of demo_trace
           = rights (results demo_env (run_consts_of demo_env demo_settings (length demo_files))
                       (configured_extension demo_settings) 0 (take m demo_files)))"
proof -
  have h1: "required_settings demo_settings" by code_simp
  have h2: "files_to_process demo_env demo_settings = Inr demo_files" by code_simp
  have h3: "run demo_env demo_settings = Some demo_trace" by code_simp
  from output_path_mirrors_relative_path[OF h1 h2 h3] show ?thesis
    using h1 h2 h3 by blast
qed



text \<open>
  C3. When the stop arrives while the last file of the list is being processed, that
  file is finished and \<^verbatim>\<open>run\<close> returns without emitting \<^verbatim>\<open>processing_finished\<close> at
  all: neither the message \<^verbatim>\<open>Processing stopped by user.\<close> nor a summary.
\<close>
theorem stop_during_last_file_emits_nothing:
  "run stop_env demo_settings =
     Some [Progress 1 3 ''a.txt'', ApiRequest ''Fix typos.'' ''text of in/a.txt'',
           Saved ''out/a.json'' ''out: text of in/a.txt'', DelaySleep 2,
           Progress 2 3 ''notes.md'',
           Progress 3 3 ''b.txt'', ApiRequest ''Fix typos.'' ''text of in/sub/b.txt'']"
  by code_simp








text \<open>
  C9. \<^verbatim>\<open>generate_content\<close> returns a string in every case: the fixed message when no
  model is set, the text of the exception behind
  \<^verbatim>\<open>ERROR: An exception occurred during generation: \<close> when the hosted call raises, the
  generated text otherwise. The run loop tells failure from success by the prefix
  \<^verbatim>\<open>ERROR:\<close> alone: a generated text that begins with it is logged as an error and
  not saved.
\<close>
theorem generate_content_total:
  "generate_content None sdk sp up = ''ERROR: Model is not set or failed to initialize.''
   \<and> (\<forall>m ex. sdk m sp up = Inl ex \<longrightarrow>
         generate_content (Some m) sdk sp up = ''ERROR: An exception occurred during generation: '' @ ex
         \<and> startswith (generate_content (Some m) sdk sp up) ''ERROR:'')
   \<and> (\<forall>m reply. sdk m sp up = Inr reply \<longrightarrow> generate_content (Some m) sdk sp up = reply)
   \<and> (\<forall>(e::env) (c::run_consts) i f (v::loop_vars) content m reply.
         read_text e i f = Inr content \<and> l_model c = Some m
         \<and> sdk_generate e i m (l_final_system_prompt c) content = Inr reply \<and> startswith reply ''ERROR:'' \<longrightarrow>
         loop_body e c i f v =
           v\<lparr>trace := trace v @ [Progress (i + 1) (l_total_files c) (basename f),
                                  ApiRequest (l_final_system_prompt c) content],
             error_log := error_log v @ [''File: '' @ basename f @ '' | '' @ reply]\<rparr>)"
proof (intro conjI allI impI)
  show "generate_content None sdk sp up = ''ERROR: Model is not set or failed to initialize.''"
    by (simp add: generate_content_def)
next
  fix m ex assume "sdk m sp up = Inl ex"
  then show "generate_content (Some m) sdk sp up = ''ERROR: An exception occurred during generation: '' @ ex"
    and "startswith (generate_content (Some m) sdk sp up) ''ERROR:''"
    by (simp_all add: generate_content_def startswith_def)
next
  fix m reply assume "sdk m sp up = Inr reply"
  then show "generate_content (Some m) sdk sp up = reply"
    by (simp add: generate_content_def)
next
  fix e :: env and c :: run_consts and i f and v :: loop_vars and content m reply
  assume "read_text e i f = Inr content \<and> l_model c = Some m
         \<and> sdk_generate e i m (l_final_system_prompt c) content = Inr reply \<and> startswith reply ''ERROR:''"
  then show "loop_body e c i f v =
           v\<lparr>trace := trace v @ [Progress (i + 1) (l_total_files c) (basename f),
                                  ApiRequest (l_final_system_prompt c) content],
             error_log := error_log v @ [''File: '' @ basename f @ '' | '' @ reply]\<rparr>"
    by (simp add: loop_body_def generate_content_def api_error_msg_def Let_def)
qed

theorem generate_content_total_witness:
  "generate_content (Some ''gemini'') (\<lambda>m sp up. Inl ''quota'') ''Fix typos.'' ''abc''
     = ''ERROR: An exception occurred during generation: quota''
   \<and> generate_content (Some ''gemini'') (\<lambda>m sp up. Inr (''fixed '' @ up)) ''Fix typos.'' ''abc'' = ''fixed abc''
   \<and> loop_body error_text_env (run_consts_of error_text_env demo_settings 3) 0 ''in/a.txt'' (initial_vars demo_settings)
     = (initial_vars demo_settings)
         \<lparr>trace := [Progress 1 3 ''a.txt'', ApiRequest ''Fix typos.'' ''text of in/a.txt''],
          error_log := [''File: a.txt | ERROR: is the first word of text of in/a.txt'']\<rparr>"
proof -
  have a: "generate_content (Some ''gemini'') (\<lambda>m sp up. Inl ''quota'') ''Fix typos.'' ''abc''
     = ''ERROR: An exception occurred during generation: quota''"
    using generate_content_total[of "\<lambda>m sp up. Inl ''quota''" "''Fix typos.''" "''abc''"] by simp
  have b: "generate_content (Some ''gemini'') (\<lambda>m sp up. Inr (''fixed '' @ up)) ''Fix typos.'' ''abc'' = ''fixed abc''"
    using generate_content_total[of "\<lambda>m sp up. Inr (''fixed '' @ up)" "''Fix typos.''" "''abc''"] by simp
  have h1: "read_text error_text_env 0 ''in/a.txt'' = Inr ''text of in/a.txt''" by code_simp
  have h2: "l_model (run_consts_of error_text_env demo_settings 3) = Some ''gemini''" by code_simp
  have h3: "l_final_system_prompt (run_consts_of error_text_env demo_settings 3) = ''Fix typos.''" by code_simp
  have h4: "sdk_generate error_text_env 0 ''gemini'' ''Fix typos.'' ''text of in/a.txt''
              = Inr ''ERROR: is the first word of text of in/a.txt''" by code_simp
  have h5: "startswith ''ERROR: is the first word of text of in/a.txt'' ''ERROR:''" by code_simp
  have h6: "basename ''in/a.txt'' = ''a.txt''" by code_simp
  have h7: "l_total_files (run_consts_of error_text_env demo_settings 3) = 3" by code_simp
  have h8: "trace (initial_vars demo_settings) = []" "error_log (initial_vars demo_settings) = []" by code_simp+
  have c: "loop_body error_text_env (run_consts_of error_text_env demo_settings 3) 0 ''in/a.txt'' (initial_vars demo_settings)
     = (initial_vars demo_settings)
         \<lparr>trace := [Progress 1 3 ''a.txt'', ApiRequest ''Fix typos.'' ''text of in/a.txt''],
          error_log := [''File: a.txt | ERROR: is the first word of text of in/a.txt'']\<rparr>"
    using generate_content_total[of "\<lambda>m sp up. Inl ''quota''" "''Fix typos.''" "''abc''"] h1 h2 h4 h5
    by (simp add: h3 h6 h7 h8)
  from a b c show ?thesis by blast
qed

text \<open>
  C10. A run that is never stopped and returns ends with the summary signal; the
  number of files saved (the value of \<^verbatim>\<open>success_count\<close>) plus the number of entries of
  the error log is the number of files collected, and the summary message is built from
  these counts.
\<close>
theorem summary_counts_every_file:
  assumes "\<forall>i k. running_at e i k" and "required_settings s" and "files_to_process e s = Inr files"
    and "files \<noteq> []" and "run e s = Some tr"
  shows "\<exists>tr0 errs. tr = tr0 @ [Finished (summary_message (length (saved_of tr0)) (length files) errs) errs]
           \<and> length (saved_of tr0) + length errs = length files
           \<and> finished_of tr0 = []"
proof -
  define c where "c = run_consts_of e s (length files)"
  define rs where "rs = results e c (configured_extension s) 0 files"
  have rl: "run_loop e c 0 files (initial_vars s) = Some tr"
    using assms(5) run_unfold[OF assms(2,3,4)] by (simp add: c_def)
  from run_loop_complete[OF assms(1) rl ext_inv_initial] obtain tr0 where tr0:
    "tr = tr0 @ [Finished (summary_message (success_count (initial_vars s) + length (rights rs))
                               (l_total_files c) (error_log (initial_vars s) @ lefts rs))
                            (error_log (initial_vars s) @ lefts rs)]"
    "saved_of tr0 = saved_of (trace (initial_vars s)) @ rights rs"
    "finished_of tr0 = finished_of (trace (initial_vars s))"
    unfolding rs_def by blast
  have sv: "saved_of tr0 = rights rs" using tr0(2) by (simp add: initial_vars_def)
  have tr: "tr = tr0 @ [Finished (summary_message (length (saved_of tr0)) (length files) (lefts rs)) (lefts rs)]"
    using tr0(1) by (simp add: sv initial_vars_def c_def run_consts_of_sel)
  have cnt: "length (saved_of tr0) + length (lefts rs) = length files"
    using length_lefts_rights[of rs] by (simp add: sv rs_def)
  have fin: "finished_of tr0 = []" using tr0(3) by (simp add: initial_vars_def)
  from tr cnt fin show ?thesis by blast
qed

theorem summary_counts_every_file_witness:
  "\<exists>tr0 errs. demo_trace = tr0 @ [Finished (summary_message (length (saved_of tr0)) 3 errs) errs]
           \<and> length (saved_of tr0) + length errs = 3 \<and> finished_of tr0 = []"
proof -
  have h1: "\<forall>i k. running_at demo_env i k" by (simp add: demo_env_def)
  have h2: "required_settings demo_settings" by code_simp
  have h3: "files_to_process demo_env demo_settings = Inr demo_files" by code_simp
  have h4: "demo_files \<noteq> []" by code_simp
  have h5: "run demo_env demo_settings = Some demo_trace" by code_simp
  have l: "length demo_files = 3" by code_simp
  from summary_counts_every_file[OF h1 h2 h3 h4 h5] show ?thesis by (simp only: l)
qed





end
